theory Spec2Isabelle
  imports Main "HOL-Library.Word" "HOL-Library.Sublist"
begin

section \<open>Byte substitution (helpers.go)\<close>

type_synonym byte = "8 word"

datatype go_panic = SliceBoundsOutOfRange

text \<open>
  Go's \<^verbatim>\<open>bytes.Index(s, sep)\<close>: the index of the first instance of \<open>sep\<close> in \<open>s\<close>,
  the value \<open>None\<close> standing for \<^verbatim>\<open>-1\<close>. An empty \<open>sep\<close> is found at index 0.
\<close>

fun bytes_Index :: "byte list \<Rightarrow> byte list \<Rightarrow> nat option" where
  "bytes_Index [] sep = (if sep = [] then Some 0 else None)"
| "bytes_Index (b # bs) sep =
     (if take (length sep) (b # bs) = sep then Some 0
      else map_option Suc (bytes_Index bs sep))"

text \<open>
  \<^verbatim>\<open>copy(byteSlice[offset:], src)\<close>: copies \<open>min (len dst) (len src)\<close> bytes and never
  grows the destination.
\<close>

definition copy_bytes :: "byte list \<Rightarrow> nat \<Rightarrow> byte list \<Rightarrow> byte list" where
  "copy_bytes dst off src =
     (let n = min (length dst - off) (length src)
      in take off dst @ take n src @ drop (off + n) dst)"

text \<open>
  The \<^verbatim>\<open>for { ... }\<close> loop of \<^verbatim>\<open>replaceAllBytes\<close>. The loop has no bound of its own, so
  it is a partial function: \<open>None\<close> is a run that never leaves the loop, \<open>Some (Inl _)\<close>
  a panic of the slice expression \<^verbatim>\<open>byteSlice[offset:]\<close>, \<open>Some (Inr bs)\<close> the returned
  slice.
\<close>

partial_function (option) replaceLoop ::
  "byte list \<Rightarrow> byte list \<Rightarrow> byte list \<Rightarrow> nat \<Rightarrow> (go_panic + byte list) option" where
  "replaceLoop byteSlice old new offset =
     (if length byteSlice < offset then Some (Inl SliceBoundsOutOfRange)
      else case bytes_Index (drop offset byteSlice) old of
             None \<Rightarrow> Some (Inr byteSlice)
           | Some i \<Rightarrow>
               replaceLoop (copy_bytes byteSlice (offset + i) new) old new
                 (offset + i + length new))"

declare replaceLoop.simps [code]

definition replaceAllBytes ::
  "byte list \<Rightarrow> byte list \<Rightarrow> byte list \<Rightarrow> (go_panic + byte list) option" where
  "replaceAllBytes byteSlice old new =
     (if length new > length old then Some (Inr byteSlice)
      else replaceLoop byteSlice old new 0)"


section \<open>Strings, paths and file names\<close>

text \<open>\<^verbatim>\<open>path.Ext\<close>: scans from the end, stops at a slash, returns the suffix from the last dot.\<close>

fun ext_scan :: "string \<Rightarrow> string \<Rightarrow> string" where
  "ext_scan [] acc = []"
| "ext_scan (c # cs) acc =
     (if c = CHR ''/'' then []
      else if c = CHR ''.'' then c # acc
      else ext_scan cs (c # acc))"

definition path_Ext :: "string \<Rightarrow> string" where
  "path_Ext p = ext_scan (rev p) []"

text \<open>
  \<^verbatim>\<open>path.Join(dir, name)\<close> for a directory entry \<open>name\<close>. The cleaning that \<^verbatim>\<open>path.Join\<close>
  also does rewrites the directory part only; the entry name stays the last element.
\<close>

definition path_Join :: "string \<Rightarrow> string \<Rightarrow> string" where
  "path_Join dir name = dir @ ''/'' @ name"

definition TrimPrefix :: "string \<Rightarrow> string \<Rightarrow> string" where
  "TrimPrefix s p = (if take (length p) s = p then drop (length p) s else s)"

definition TrimSuffix :: "string \<Rightarrow> string \<Rightarrow> string" where
  "TrimSuffix s x =
     (if length x \<le> length s \<and> drop (length s - length x) s = x
      then take (length s - length x) s else s)"

text \<open>
  \<^verbatim>\<open>strings.ToLower\<close> on ASCII. It is applied to extensions that passed
  \<open>isValidFilename\<close> only, which are ASCII.
\<close>

definition lower_char :: "char \<Rightarrow> char" where
  "lower_char c =
     (case map_of (zip ''ABCDEFGHIJKLMNOPQRSTUVWXYZ'' ''abcdefghijklmnopqrstuvwxyz'') c of
        Some l \<Rightarrow> l | None \<Rightarrow> c)"

definition ToLower :: "string \<Rightarrow> string" where
  "ToLower s = map lower_char s"

text \<open>The regular expression \<^verbatim>\<open>^[a-zA-Z0-9._-]+$\<close>.\<close>

definition isValidFilename :: "string \<Rightarrow> bool" where
  "isValidFilename s \<longleftrightarrow>
     s \<noteq> [] \<and>
     list_all (\<lambda>c. c \<in> set
       ''abcdefghijklmnopqrstuvwxyzABCDEFGHIJKLMNOPQRSTUVWXYZ0123456789._-'') s"

text \<open>
  \<^verbatim>\<open>humanReadableSize\<close>: the unit is chosen by integer comparison; the two \<^verbatim>\<open>Sprintf\<close>
  renderings (\<^verbatim>\<open>%.2f\<close> of a float quotient, \<^verbatim>\<open>%d\<close>) are parameters.
\<close>

definition humanReadableSize ::
  "(int \<Rightarrow> int \<Rightarrow> string) \<Rightarrow> (int \<Rightarrow> string) \<Rightarrow> int \<Rightarrow> string" where
  "humanReadableSize fmt2f fmtd sz =
     (if sz \<ge> 2 ^ 40 then fmt2f sz (2 ^ 40) @ '' TB''
      else if sz \<ge> 2 ^ 30 then fmt2f sz (2 ^ 30) @ '' GB''
      else if sz \<ge> 2 ^ 20 then fmt2f sz (2 ^ 20) @ '' MB''
      else if sz \<ge> 2 ^ 10 then fmt2f sz (2 ^ 10) @ '' KB''
      else fmtd sz @ '' bytes'')"


section \<open>Data model (tasks.go)\<close>

type_synonym path = string

text \<open>
  Modelled from the spec: the \<^verbatim>\<open>Task\<close> type is declared outside the files at hand; a Task
  is a rule with a name, a set of matched extensions, a minimum input size and a command
  template. The template itself is rendered by the environment.
\<close>

record Task =
  Name :: string
  Extensions :: "string list"
  MinFilesizeBytes :: int

text \<open>The \<^verbatim>\<open>multipart.FileHeader\<close> fields the program reads.\<close>

record FileHeader =
  Filename :: string
  Size :: int

text \<open>An open file: the multipart form file of the request, or an \<^verbatim>\<open>*os.File\<close> at a path.\<close>

datatype file_ref = FormFile | OsFile path

record TaskProcessor =
  Task :: Task
  OriginalFile :: "file_ref option"
  OriginalFilename :: string
  OriginalExtension :: string
  OriginalSize :: int
  tempOriginalFilePath :: path
  ProcessedFile :: "file_ref option"
  ProcessedFilename :: string
  ProcessedExtension :: string
  ProcessedSize :: int
  tempWorkDir :: path

datatype err =
    FormFileFailed
  | JobExists int
  | InvalidExtension string
  | NoTaskFound string
  | FileTooSmall int int
  | CreateTempFailed
  | WriteTempFailed
  | MkdirTempFailed
  | TemplateFailed
  | CommandFailed
  | ReadDirFailed
  | UnexpectedFileCount nat
  | OpenTempFailed
  | ProcessFailed int err
  | Sha1Failed
  | NewSha1Failed
  | NewRequestFailed
  | PostFailed
  | PipeWriteFailed
  | ForwardResponseFailed

text \<open>A call returns a value, returns an error, or panics (a nil dereference).\<close>

datatype 'a result = Ret 'a | Fail err | Panics

text \<open>What a request does to the world outside the process, in order.\<close>

datatype event =
    JobsStore string int
  | JobsDelete string
  | HttpError nat
  | FormFileClose
  | FormRemoveAll
  | CreateTemp path
  | FileClose file_ref
  | Remove path
  | MkdirTemp path
  | RemoveAll path
  | Exec string
  | Sha1 "file_ref option"
  | Upload "file_ref option" string
  | RelayResponse

text \<open>
  The process state: the two globals of tasks.go, the checksum store, the temporary
  files and directories that exist, and the events so far.
\<close>

record state =
  jobIdCounter :: int
  jobs :: "string \<rightharpoonup> int"
  checksums :: "(string \<times> string) list"
  fs :: "path list"
  trace :: "event list"

datatype do_result = DoOk | DoErrNoResponse | DoErrWithResponse

text \<open>
  The environment of one request: the outcome of every call that leaves the process
  (request parsing, file system, the external command, hashing, the upstream server).
  \<open>None\<close> or \<open>False\<close> is the call's error return.
\<close>

record world =
  configTasks :: "Task list"
  formFileRes :: "FileHeader option"
  sprintf_2f :: "int \<Rightarrow> int \<Rightarrow> string"
  sprintf_d :: "int \<Rightarrow> string"
  createTempRes :: "path option"
  copyOk :: bool
  mkdirTempRes :: "path option"
  templateRes :: "string option"
  cmdExitOk :: bool
  cmdOutputs :: "string list"
  readDirOk :: bool
  openOk :: bool
  statRes :: "int option"
  sha1Res :: "file_ref option \<Rightarrow> string option"
  removeOk :: bool
  removeAllOk :: bool
  newRequestOk :: bool
  doRes :: do_result
  pipeErrPending :: bool
  forwardOk :: bool

definition emit :: "event \<Rightarrow> state \<Rightarrow> state" where
  "emit e s = s\<lparr>trace := trace s @ [e]\<rparr>"

fun uploads :: "event list \<Rightarrow> (file_ref option \<times> string) list" where
  "uploads [] = []"
| "uploads (Upload f n # es) = (f, n) # uploads es"
| "uploads (_ # es) = uploads es"

fun is_pipeline_event :: "event \<Rightarrow> bool" where
  "is_pipeline_event (CreateTemp _) = True"
| "is_pipeline_event (MkdirTemp _) = True"
| "is_pipeline_event (Exec _) = True"
| "is_pipeline_event _ = False"

text \<open>\<^verbatim>\<open>sync.Map\<close>: each of Load, Store and Delete is one atomic operation.\<close>

definition jobs_Load :: "(string \<rightharpoonup> int) \<Rightarrow> string \<Rightarrow> int option" where
  "jobs_Load m k = m k"

definition jobs_Store :: "(string \<rightharpoonup> int) \<Rightarrow> string \<Rightarrow> int \<Rightarrow> (string \<rightharpoonup> int)" where
  "jobs_Store m k v = m(k \<mapsto> v)"

definition jobs_Delete :: "(string \<rightharpoonup> int) \<Rightarrow> string \<Rightarrow> (string \<rightharpoonup> int)" where
  "jobs_Delete m k = m(k := None)"

text \<open>
  Modelled from the spec: \<^verbatim>\<open>addChecksums\<close> is defined outside the files at hand; the spec's
  \<open>record(replacementHash, originalHash)\<close> appends the pair to the store.
\<close>

definition addChecksums :: "string \<Rightarrow> string \<Rightarrow> state \<Rightarrow> state" where
  "addChecksums newHash originalHash s =
     s\<lparr>checksums := checksums s @ [(newHash, originalHash)]\<rparr>"

text \<open>
  Modelled from the spec: \<^verbatim>\<open>SHA1\<close> is defined outside the files at hand; it hashes the
  content of an open file and returns the digest or an error.
\<close>

definition SHA1 :: "world \<Rightarrow> file_ref option \<Rightarrow> state \<Rightarrow> string option \<times> state" where
  "SHA1 w f s = (sha1Res w f, emit (Sha1 f) s)"

section \<open>The upload session (tasks.go)\<close>

text \<open>The extension as the Tasks list it: without the dot, in lower case.\<close>

definition checkExt_of :: "string \<Rightarrow> string" where
  "checkExt_of originalExtension = ToLower (TrimPrefix originalExtension ''.'')"

text \<open>The loop over \<^verbatim>\<open>config.Tasks\<close> that stops at the first Task listing the extension.\<close>

definition lookupTask :: "Task list \<Rightarrow> string \<Rightarrow> Task option" where
  "lookupTask tasks checkExt = find (\<lambda>t. checkExt \<in> set (Extensions t)) tasks"

text \<open>
  \<^verbatim>\<open>NewTaskProcessorFromMultipart\<close>. The first Task whose extension list contains the
  lowercased extension is taken. The temporary file is created before the upload is
  copied into it; a failed copy returns without touching the file again.
\<close>

definition NewTaskProcessorFromMultipart ::
  "world \<Rightarrow> FileHeader \<Rightarrow> state \<Rightarrow> (err + TaskProcessor) \<times> state" where
  "NewTaskProcessorFromMultipart w header s =
     (let originalExtension = path_Ext (Filename header) in
      if \<not> isValidFilename originalExtension then (Inl (InvalidExtension originalExtension), s)
      else
        let checkExt = checkExt_of originalExtension in
        case lookupTask (configTasks w) checkExt of
          None \<Rightarrow> (Inl (NoTaskFound checkExt), s)
        | Some task \<Rightarrow>
            if Size header < MinFilesizeBytes task
            then (Inl (FileTooSmall (Size header) (MinFilesizeBytes task)), s)
            else
              case createTempRes w of
                None \<Rightarrow> (Inl CreateTempFailed, s)
              | Some p \<Rightarrow>
                  let s1 = emit (CreateTemp p) (s\<lparr>fs := p # fs s\<rparr>) in
                  if \<not> copyOk w then (Inl WriteTempFailed, s1)
                  else
                    (Inr \<lparr>Task = task,
                          OriginalFile = Some (OsFile p),
                          OriginalFilename = Filename header,
                          OriginalExtension = originalExtension,
                          OriginalSize = Size header,
                          tempOriginalFilePath = p,
                          ProcessedFile = None,
                          ProcessedFilename = [],
                          ProcessedExtension = [],
                          ProcessedSize = 0,
                          tempWorkDir = []\<rparr>, s1))"

text \<open>
  \<^verbatim>\<open>CleanOriginalFile\<close>, \<^verbatim>\<open>CleanWorkDir\<close> and \<^verbatim>\<open>Close\<close>. A failed removal is logged and
  the path is forgotten all the same. Every caller discards the returned error, so the
  model returns the session and the state only.
\<close>

definition CleanOriginalFile ::
  "world \<Rightarrow> TaskProcessor \<Rightarrow> state \<Rightarrow> TaskProcessor \<times> state" where
  "CleanOriginalFile w tp s =
     (let (tp1, s1) =
        (case OriginalFile tp of
           Some f \<Rightarrow> (tp\<lparr>OriginalFile := None\<rparr>, emit (FileClose f) s)
         | None \<Rightarrow> (tp, s))
      in
      if tempOriginalFilePath tp1 \<noteq> []
      then (tp1\<lparr>tempOriginalFilePath := []\<rparr>,
            emit (Remove (tempOriginalFilePath tp1))
              (s1\<lparr>fs := (if removeOk w
                          then removeAll (tempOriginalFilePath tp1) (fs s1)
                          else fs s1)\<rparr>))
      else (tp1, s1))"

text \<open>\<^verbatim>\<open>os.RemoveAll(dir)\<close> removes the directory and everything below it.\<close>

definition below :: "path \<Rightarrow> path \<Rightarrow> bool" where
  "below dir p \<longleftrightarrow> p = dir \<or> take (length dir + 1) p = dir @ ''/''"

definition CleanWorkDir ::
  "world \<Rightarrow> TaskProcessor \<Rightarrow> state \<Rightarrow> TaskProcessor \<times> state" where
  "CleanWorkDir w tp s =
     (if tempWorkDir tp = [] then (tp, s)
      else (tp\<lparr>tempWorkDir := []\<rparr>,
            emit (RemoveAll (tempWorkDir tp))
              (s\<lparr>fs := (if removeAllOk w
                         then filter (\<lambda>p. \<not> below (tempWorkDir tp) p) (fs s)
                         else fs s)\<rparr>)))"

definition Close :: "world \<Rightarrow> TaskProcessor \<Rightarrow> state \<Rightarrow> TaskProcessor \<times> state" where
  "Close w tp s = (let (tp1, s1) = CleanOriginalFile w tp s in CleanWorkDir w tp1 s1)"

text \<open>
  \<^verbatim>\<open>TaskProcessor.Run\<close>. The two semaphores only delay the start of a run and are not
  part of this sequential model. The command line is rendered and run by the
  environment; the files it leaves in the fresh result folder are \<open>cmdOutputs\<close>, and
  \<^verbatim>\<open>os.ReadDir\<close> lists them. A failed \<^verbatim>\<open>os.Stat\<close> leaves \<^verbatim>\<open>stat\<close> nil, and the call
  \<^verbatim>\<open>stat.Size()\<close> that follows panics.
\<close>

definition Run ::
  "world \<Rightarrow> TaskProcessor \<Rightarrow> state \<Rightarrow> unit result \<times> TaskProcessor \<times> state" where
  "Run w tp s =
     (case mkdirTempRes w of
        None \<Rightarrow> (Fail MkdirTempFailed, tp\<lparr>tempWorkDir := []\<rparr>, s)
      | Some dir \<Rightarrow>
          let tp1 = tp\<lparr>tempWorkDir := dir\<rparr>;
              s1 = emit (MkdirTemp dir) (s\<lparr>fs := dir # fs s\<rparr>)
          in
          case templateRes w of
            None \<Rightarrow> (Fail TemplateFailed, tp1, s1)
          | Some cmdLine \<Rightarrow>
              let s2 = emit (Exec cmdLine)
                         (s1\<lparr>fs := map (path_Join dir) (cmdOutputs w) @ fs s1\<rparr>)
              in
              if \<not> cmdExitOk w then (Fail CommandFailed, tp1, s2)
              else if \<not> readDirOk w then (Fail ReadDirFailed, tp1, s2)
              else
                case cmdOutputs w of
                  [name] \<Rightarrow>
                    let processedFilePath = path_Join dir name in
                    if \<not> openOk w then (Fail OpenTempFailed, tp1\<lparr>ProcessedFile := None\<rparr>, s2)
                    else
                      let tp2 = tp1\<lparr>ProcessedFile := Some (OsFile processedFilePath)\<rparr> in
                      (case statRes w of
                         None \<Rightarrow> (Panics, tp2, s2)
                       | Some sz \<Rightarrow>
                           (Ret (),
                            tp2\<lparr>ProcessedSize := sz,
                                ProcessedExtension := path_Ext processedFilePath,
                                ProcessedFilename :=
                                  TrimSuffix (OriginalFilename tp) (OriginalExtension tp)
                                    @ path_Ext processedFilePath\<rparr>,
                            s2))
                | files \<Rightarrow> (Fail (UnexpectedFileCount (length files)), tp1, s2))"


section \<open>The job coordinator (tasks.go)\<close>

text \<open>
  \<^verbatim>\<open>uploadUpstream\<close>. The call is recorded when it is entered. \<^verbatim>\<open>defer resp.Body.Close()\<close>
  stands before the error check, so a failed \<^verbatim>\<open>Do\<close> that returns no response panics.
\<close>

definition uploadUpstream ::
  "world \<Rightarrow> file_ref option \<Rightarrow> string \<Rightarrow> state \<Rightarrow> unit result \<times> state" where
  "uploadUpstream w file name s =
     (let s1 = emit (Upload file name) s in
      if \<not> newRequestOk w then (Fail NewRequestFailed, s1)
      else
        case doRes w of
          DoErrNoResponse \<Rightarrow> (Panics, s1)
        | DoErrWithResponse \<Rightarrow>
            (Fail (if pipeErrPending w then PipeWriteFailed else PostFailed), s1)
        | DoOk \<Rightarrow>
            let s2 = emit RelayResponse s1 in
            if forwardOk w then (Ret (), s2) else (Fail ForwardResponseFailed, s2))"

definition jobKey :: "world \<Rightarrow> FileHeader \<Rightarrow> string" where
  "jobKey w header =
     CHR 0x22 # Filename header @ CHR 0x22 # '' ('' @
       humanReadableSize (sprintf_2f w) (sprintf_d w) (Size header) @ '')''"

text \<open>
  Lines 251 to 267 of \<^verbatim>\<open>newJob\<close>: the upload, the error response, and the recording of
  the hash pair when the processed file was chosen.
\<close>

definition upload_and_record ::
  "world \<Rightarrow> TaskProcessor option \<Rightarrow> file_ref option \<Rightarrow> string \<Rightarrow> bool \<Rightarrow> string
     \<Rightarrow> state \<Rightarrow> unit result \<times> state" where
  "upload_and_record w taskProcessor uploadFile uploadFilename uploadOriginal originalHash s =
     (case uploadUpstream w uploadFile uploadFilename s of
        (Panics, s1) \<Rightarrow> (Panics, s1)
      | (r, s1) \<Rightarrow>
          let s2 = (case r of Fail e \<Rightarrow> emit (HttpError 500) s1 | _ \<Rightarrow> s1) in
          if uploadOriginal then (Ret (), s2)
          else
            case taskProcessor of
              None \<Rightarrow> (Panics, s2)
            | Some tp \<Rightarrow>
                (case SHA1 w (ProcessedFile tp) s2 of
                   (None, s3) \<Rightarrow> (Fail NewSha1Failed, s3)
                 | (Some newHash, s3) \<Rightarrow> (Ret (), addChecksums newHash originalHash s3)))"

text \<open>
  The body of \<^verbatim>\<open>if err == nil && taskProcessor != nil { ... }\<close> and what follows it, for
  a session that was created. The deferred \<^verbatim>\<open>taskProcessor.Close()\<close> runs on every way
  out, a panic included.
\<close>

definition job_with_processor ::
  "world \<Rightarrow> FileHeader \<Rightarrow> int \<Rightarrow> TaskProcessor \<Rightarrow> state \<Rightarrow> unit result \<times> state" where
  "job_with_processor w header jobID tp0 s0 =
     (let s1 = emit FormRemoveAll (emit FormFileClose s0);
          (r, tp, s) =
            (case Run w tp0 s1 of
               (Panics, tp1, s2) \<Rightarrow> (Panics, tp1, s2)
             | (Fail e, tp1, s2) \<Rightarrow> (Fail (ProcessFailed jobID e), tp1, s2)
             | (Ret _, tp1, s2) \<Rightarrow>
                 if OriginalSize tp1 \<le> ProcessedSize tp1 then
                   let (tp2, s3) = CleanWorkDir w tp1 s2;
                       (r, s4) = upload_and_record w (Some tp2) (OriginalFile tp1)
                                   (Filename header) True [] s3
                   in (r, tp2, s4)
                 else
                   (case SHA1 w (OriginalFile tp1) s2 of
                      (None, s3) \<Rightarrow> (Fail Sha1Failed, tp1, s3)
                    | (Some originalHash, s3) \<Rightarrow>
                        let (tp2, s4) = CleanOriginalFile w tp1 s3;
                            (r, s5) = upload_and_record w (Some tp2) (ProcessedFile tp1)
                                        (ProcessedFilename tp1) False originalHash s4
                        in (r, tp2, s5)));
          (tp', s') = Close w tp s
      in (r, s'))"

definition job_registered :: "world \<Rightarrow> FileHeader \<Rightarrow> int \<Rightarrow> state \<Rightarrow> unit result \<times> state" where
  "job_registered w header jobID s =
     (case NewTaskProcessorFromMultipart w header s of
        (Inl e, s1) \<Rightarrow> upload_and_record w None (Some FormFile) (Filename header) True [] s1
      | (Inr tp, s1) \<Rightarrow> job_with_processor w header jobID tp s1)"

text \<open>
  \<^verbatim>\<open>newJob\<close>. The deferred calls run in reverse order of registration:
  \<^verbatim>\<open>jobs.Delete\<close> (registered only after the duplicate check passed), then
  \<^verbatim>\<open>formFile.Close\<close>, then \<^verbatim>\<open>r.MultipartForm.RemoveAll\<close>.
\<close>

definition newJob :: "world \<Rightarrow> state \<Rightarrow> unit result \<times> state" where
  "newJob w s0 =
     (let jobID = jobIdCounter s0 + 1;
          s = s0\<lparr>jobIdCounter := jobID\<rparr>
      in
      case formFileRes w of
        None \<Rightarrow> (Fail FormFileFailed, s)
      | Some header \<Rightarrow>
          let key = jobKey w header;
              (r, s') =
                (case jobs_Load (jobs s) key of
                   Some existing \<Rightarrow> (Fail (JobExists existing), emit (HttpError 500) s)
                 | None \<Rightarrow>
                     let s1 = emit (JobsStore key jobID)
                                (s\<lparr>jobs := jobs_Store (jobs s) key jobID\<rparr>);
                         (r, s2) = job_registered w header jobID s1
                     in (r, emit (JobsDelete key) (s2\<lparr>jobs := jobs_Delete (jobs s2) key\<rparr>)))
          in (r, emit FormRemoveAll (emit FormFileClose s')))"

text \<open>The state in which the body of a job runs: the counter advanced, the key stored.\<close>

definition registered :: "world \<Rightarrow> FileHeader \<Rightarrow> state \<Rightarrow> state" where
  "registered w header s =
     emit (JobsStore (jobKey w header) (jobIdCounter s + 1))
       (s\<lparr>jobIdCounter := jobIdCounter s + 1,
          jobs := jobs_Store (jobs s) (jobKey w header) (jobIdCounter s + 1)\<rparr>)"

text \<open>
  Two relations between a state and a later one, used to add up the effects of the
  steps of a job: \<open>quiet\<close> steps neither upload nor record nor touch the job table;
  \<open>grows\<close> steps only append events and leave the job table alone.
\<close>

definition quiet :: "state \<Rightarrow> state \<Rightarrow> bool" where
  "quiet s s' \<longleftrightarrow>
     jobs s' = jobs s \<and> checksums s' = checksums s \<and>
     (\<exists>es. trace s' = trace s @ es \<and> uploads es = [])"

definition grows :: "state \<Rightarrow> state \<Rightarrow> bool" where
  "grows s s' \<longleftrightarrow> jobs s' = jobs s \<and> (\<exists>es. trace s' = trace s @ es)"


section \<open>Two requests racing for one job key\<close>

text \<open>
  The duplicate check of \<^verbatim>\<open>newJob\<close> is a \<^verbatim>\<open>jobs.Load\<close> followed by a separate
  \<^verbatim>\<open>jobs.Store\<close>. Each request is at one of four points; a step is one atomic
  operation of one request, and requests interleave freely.
\<close>

datatype pc = BeforeLoad | BeforeStore | Registered | Rejected

fun dedup_step :: "string \<Rightarrow> int \<Rightarrow> (string \<rightharpoonup> int) \<times> pc \<Rightarrow> (string \<rightharpoonup> int) \<times> pc" where
  "dedup_step key jobID (m, BeforeLoad) =
     (case jobs_Load m key of Some _ \<Rightarrow> (m, Rejected) | None \<Rightarrow> (m, BeforeStore))"
| "dedup_step key jobID (m, BeforeStore) = (jobs_Store m key jobID, Registered)"
| "dedup_step key jobID (m, Registered) = (m, Registered)"
| "dedup_step key jobID (m, Rejected) = (m, Rejected)"

inductive interleave ::
  "string \<Rightarrow> (string \<rightharpoonup> int) \<times> pc \<times> pc \<Rightarrow> (string \<rightharpoonup> int) \<times> pc \<times> pc \<Rightarrow> bool"
  for key :: string where
    first: "dedup_step key 1 (m, a) = (m', a') \<Longrightarrow> interleave key (m, a, b) (m', a', b)"
  | second: "dedup_step key 2 (m, b) = (m', b') \<Longrightarrow> interleave key (m, a, b) (m', a, b')"


section \<open>Example requests\<close>

definition image_task :: Task where
  "image_task =
     \<lparr>Name = ''avif'', Extensions = [''jpg'', ''jpeg'', ''png''], MinFilesizeBytes = 1000\<rparr>"

definition video_task :: Task where
  "video_task =
     \<lparr>Name = ''h265'', Extensions = [''mov'', ''mp4''], MinFilesizeBytes = 1000000\<rparr>"

definition photo_header :: FileHeader where
  "photo_header = \<lparr>Filename = ''photo.JPG'', Size = 2000000\<rparr>"


text \<open>
  An upload of \<open>photo.JPG\<close> (2,000,000 bytes) in which every call succeeds and the
  converter leaves one file of 400,000 bytes.
\<close>

definition photo_world :: world where
  "photo_world =
     \<lparr>configTasks = [image_task, video_task],
      formFileRes = Some photo_header,
      sprintf_2f = (\<lambda>a b. ''1.91''),
      sprintf_d = (\<lambda>a. ''50000''),
      createTempRes = Some ''/tmp/upload-1.JPG'',
      copyOk = True,
      mkdirTempRes = Some ''/tmp/processing-1'',
      templateRes = Some ''avifenc'',
      cmdExitOk = True,
      cmdOutputs = [''upload-1.avif''],
      readDirOk = True,
      openOk = True,
      statRes = Some 400000,
      sha1Res = (\<lambda>f. if f = Some (OsFile ''/tmp/upload-1.JPG'')
                      then Some ''hashA'' else Some ''hashB''),
      removeOk = True,
      removeAllOk = True,
      newRequestOk = True,
      doRes = DoOk,
      pipeErrPending = False,
      forwardOk = True\<rparr>"

definition photo_session :: TaskProcessor where
  "photo_session =
     \<lparr>Task = image_task,
      OriginalFile = Some (OsFile ''/tmp/upload-1.JPG''),
      OriginalFilename = ''photo.JPG'',
      OriginalExtension = ''.JPG'',
      OriginalSize = 2000000,
      tempOriginalFilePath = ''/tmp/upload-1.JPG'',
      ProcessedFile = None,
      ProcessedFilename = [],
      ProcessedExtension = [],
      ProcessedSize = 0,
      tempWorkDir = []\<rparr>"

definition idle :: state where
  "idle = \<lparr>jobIdCounter = 0, jobs = Map.empty, checksums = [], fs = [], trace = []\<rparr>"



section \<open>Byte substitution: properties\<close>

lemma bytes_Index_None_iff: "bytes_Index bs sep = None \<longleftrightarrow> \<not> sublist sep bs"
proof (induction bs)
  case Nil
  then show ?case by simp
next
  case (Cons b bs)
  have "take (length sep) (b # bs) = sep \<longleftrightarrow> prefix sep (b # bs)"
    by (metis prefix_def append_eq_conv_conj take_is_prefix)
  then show ?case using Cons
    by (auto simp: sublist_Cons_right)
qed

lemma bytes_Index_Some:
  "bytes_Index bs sep = Some i \<Longrightarrow>
     i + length sep \<le> length bs \<and> take (length sep) (drop i bs) = sep"
proof (induction bs arbitrary: i)
  case Nil
  then show ?case by (simp split: if_splits)
next
  case (Cons b bs)
  show ?case
  proof (cases "take (length sep) (b # bs) = sep")
    case True
    then have "length (take (length sep) (b # bs)) = length sep" by simp
    then have "length sep \<le> length (b # bs)" by (simp add: min_def split: if_splits)
    with True Cons.prems show ?thesis by simp
  next
    case False
    with Cons.prems obtain j where j: "bytes_Index bs sep = Some j" "i = Suc j"
      by auto
    with Cons.IH[OF j(1)] show ?thesis by simp
  qed
qed

lemma length_copy_bytes: "off \<le> length dst \<Longrightarrow> length (copy_bytes dst off src) = length dst"
  by (simp add: copy_bytes_def Let_def min_def)

text \<open>With a non-empty replacement every iteration moves the offset forward.\<close>

lemma replaceLoop_returns:
  assumes "new \<noteq> []" "length new \<le> length old" "offset \<le> length byteSlice"
  shows "\<exists>r. replaceLoop byteSlice old new offset = Some (Inr r) \<and> length r = length byteSlice"
  using assms
proof (induction "length byteSlice - offset" arbitrary: byteSlice offset rule: less_induct)
  case less
  show ?case
  proof (cases "bytes_Index (drop offset byteSlice) old")
    case None
    with less.prems show ?thesis by (subst replaceLoop.simps) simp
  next
    case (Some i)
    let ?bs = "copy_bytes byteSlice (offset + i) new"
    let ?off = "offset + i + length new"
    from bytes_Index_Some[OF Some] have "i + length old \<le> length byteSlice - offset" by simp
    with less.prems have b: "offset + i + length old \<le> length byteSlice" by arith
    with less.prems have len: "length ?bs = length byteSlice"
      by (simp add: length_copy_bytes)
    from b less.prems have off: "?off \<le> length ?bs" using len by simp
    from less.prems have "0 < length new" by simp
    with off len have dec: "length ?bs - ?off < length byteSlice - offset" by arith
    from less.hyps[OF dec less.prems(1,2) off] len
    obtain r where "replaceLoop ?bs old new ?off = Some (Inr r)" "length r = length byteSlice"
      by auto
    with Some less.prems show ?thesis by (subst replaceLoop.simps) simp
  qed
qed

lemma replaceAllBytes_returns_same_length:
  assumes "new \<noteq> []"
  shows "\<exists>r. replaceAllBytes byteSlice old new = Some (Inr r) \<and> length r = length byteSlice"
  using replaceLoop_returns[of new old 0 byteSlice] assms
  by (auto simp: replaceAllBytes_def)

lemma replaceAllBytes_refuses_longer:
  "length new > length old \<Longrightarrow> replaceAllBytes byteSlice old new = Some (Inr byteSlice)"
  by (simp add: replaceAllBytes_def)

text \<open>Whenever the loop returns a slice, the slice has the length of the input.\<close>

lemma replaceLoop_length:
  assumes "replaceLoop byteSlice old new offset = Some y"
  shows "\<forall>r. y = Inr r \<longrightarrow> length r = length byteSlice"
  using assms
proof (rule replaceLoop.raw_induct
    [rotated, where P = "\<lambda>bs old new off y. \<forall>r. y = Inr r \<longrightarrow> length r = length bs"])
  fix f bs old new off y
  assume IH: "\<And>bs old new off y. f bs old new off = Some y \<Longrightarrow>
                 \<forall>r. y = Inr r \<longrightarrow> length r = length bs"
    and eq: "(if length bs < off then Some (Inl SliceBoundsOutOfRange)
              else case bytes_Index (drop off bs) old of
                     None \<Rightarrow> Some (Inr bs)
                   | Some i \<Rightarrow> f (copy_bytes bs (off + i) new) old new (off + i + length new))
             = Some y"
  show "\<forall>r. y = Inr r \<longrightarrow> length r = length bs"
  proof (cases "length bs < off")
    case True
    with eq show ?thesis by auto
  next
    case inb: False
    show ?thesis
    proof (cases "bytes_Index (drop off bs) old")
      case None
      with eq inb show ?thesis by auto
    next
      case (Some i)
      from bytes_Index_Some[OF Some] have "i + length old \<le> length bs - off" by simp
      with inb have "off + i \<le> length bs" by arith
      then have len: "length (copy_bytes bs (off + i) new) = length bs"
        by (rule length_copy_bytes)
      from eq Some inb
      have "f (copy_bytes bs (off + i) new) old new (off + i + length new) = Some y"
        by simp
      from IH[OF this] len show ?thesis by simp
    qed
  qed
qed

text \<open>
  With an empty replacement the offset does not move past a match: the same match is
  found again, and the loop never returns.
\<close>

lemma replaceLoop_stuck:
  assumes "replaceLoop byteSlice old new offset = Some y"
  shows "\<not> (new = [] \<and> sublist old (drop offset byteSlice) \<and> offset \<le> length byteSlice)"
  using assms
proof (rule replaceLoop.raw_induct
    [rotated, where P = "\<lambda>bs old new off y.
        \<not> (new = [] \<and> sublist old (drop off bs) \<and> off \<le> length bs)"])
  fix f bs old new off y
  assume IH: "\<And>bs old new off y. f bs old new off = Some y \<Longrightarrow>
                 \<not> (new = [] \<and> sublist old (drop off bs) \<and> off \<le> length bs)"
    and eq: "(if length bs < off then Some (Inl SliceBoundsOutOfRange)
              else case bytes_Index (drop off bs) old of
                     None \<Rightarrow> Some (Inr bs)
                   | Some i \<Rightarrow> f (copy_bytes bs (off + i) new) old new (off + i + length new))
             = Some y"
  show "\<not> (new = [] \<and> sublist old (drop off bs) \<and> off \<le> length bs)"
  proof
    assume a: "new = [] \<and> sublist old (drop off bs) \<and> off \<le> length bs"
    then obtain i where i: "bytes_Index (drop off bs) old = Some i"
      using bytes_Index_None_iff by fastforce
    from bytes_Index_Some[OF i] have occ: "take (length old) (drop (off + i) bs) = old"
      by (simp add: add.commute)
    from bytes_Index_Some[OF i] have "i + length old \<le> length bs - off" by simp
    with a have le: "off + i \<le> length bs" by arith
    have cp: "copy_bytes bs (off + i) [] = bs"
      by (simp add: copy_bytes_def)
    from eq i a cp have call: "f bs old [] (off + i) = Some y" by simp
    have "sublist old (drop (off + i) bs)"
      by (metis occ sublist_take)
    with IH[OF call] le show False by simp
  qed
qed

lemma replaceAllBytes_empty_replacement_diverges:
  assumes "sublist old byteSlice"
  shows "replaceAllBytes byteSlice old [] = None"
proof (cases "replaceLoop byteSlice old [] 0")
  case None
  then show ?thesis by (simp add: replaceAllBytes_def)
next
  case (Some y)
  from replaceLoop_stuck[OF Some] assms show ?thesis by simp
qed

text \<open>
  C2. The claim: for every input slice and every pair (old, new), \<open>replaceAllBytes\<close>
  returns a slice of the length of its input. At the input \<open>[97]\<close> with \<open>old = [97]\<close> and
  an empty replacement the call does not return at all: the loop finds the match at
  offset 0, copies nothing, adds 0 to the offset and finds the same match again.
\<close>

theorem replaceAllBytes_empty_replacement_never_returns:
  "replaceAllBytes [97] [97] [] = None"
  by (rule replaceAllBytes_empty_replacement_diverges) simp

text \<open>
  C9. A slice with no occurrence of the searched string is returned byte for byte:
  \<open>replaceAllBytes\<close> returns, and returns its input.
\<close>

theorem replaceAllBytes_no_occurrence_identity:
  "\<not> sublist old byteSlice \<Longrightarrow> replaceAllBytes byteSlice old new = Some (Inr byteSlice)"
proof -
  assume "\<not> sublist old byteSlice"
  then have "bytes_Index (drop 0 byteSlice) old = None"
    by (simp add: bytes_Index_None_iff)
  then have "replaceLoop byteSlice old new 0 = Some (Inr byteSlice)"
    by (subst replaceLoop.simps) simp
  then show ?thesis by (simp add: replaceAllBytes_def)
qed

theorem replaceAllBytes_no_occurrence_identity_witness:
  "\<not> sublist [104, 49] [123, 104, 50, 125 :: byte] \<and>
   replaceAllBytes [123, 104, 50, 125] [104, 49] [104, 57] = Some (Inr [123, 104, 50, 125])"
proof -
  have h: "\<not> sublist [104, 49] [123, 104, 50, 125 :: byte]" by code_simp
  show ?thesis
    using h replaceAllBytes_no_occurrence_identity[OF h, of "[104, 57]"] by simp
qed

section \<open>The job coordinator: effects of the single steps\<close>

lemma uploads_append [simp]: "uploads (xs @ ys) = uploads xs @ uploads ys"
  by (induction xs rule: uploads.induct) simp_all

lemma emit_fields [simp]:
  "trace (emit e s) = trace s @ [e]"
  "jobs (emit e s) = jobs s"
  "checksums (emit e s) = checksums s"
  "fs (emit e s) = fs s"
  "jobIdCounter (emit e s) = jobIdCounter s"
  by (simp_all add: emit_def)

lemma NewTaskProcessor_frame:
  assumes "NewTaskProcessorFromMultipart w h s = (r, s')"
  shows "jobs s' = jobs s \<and> checksums s' = checksums s \<and>
         (\<exists>es. trace s' = trace s @ es \<and> uploads es = [])"
  using assms
  by (auto simp: NewTaskProcessorFromMultipart_def Let_def split: if_splits option.splits)

lemma NewTaskProcessor_indep:
  "fst (NewTaskProcessorFromMultipart w h s) = fst (NewTaskProcessorFromMultipart w h s')"
  by (simp add: NewTaskProcessorFromMultipart_def Let_def split: option.splits)

lemma Run_frame:
  assumes "Run w tp s = (r, tp', s')"
  shows "jobs s' = jobs s \<and> checksums s' = checksums s \<and>
         (\<exists>es. trace s' = trace s @ es \<and> uploads es = [])"
  using assms
  by (auto simp: Run_def Let_def split: if_splits option.splits list.splits)

lemma Run_indep:
  "fst (Run w tp s) = fst (Run w tp s') \<and> fst (snd (Run w tp s)) = fst (snd (Run w tp s'))"
  by (simp add: Run_def Let_def split: option.splits list.splits)

lemma CleanOriginalFile_frame:
  assumes "CleanOriginalFile w tp s = (tp', s')"
  shows "jobs s' = jobs s \<and> checksums s' = checksums s \<and>
         (\<exists>es. trace s' = trace s @ es \<and> uploads es = [])"
  using assms
  by (auto simp: CleanOriginalFile_def Let_def split: if_splits option.splits)

lemma CleanWorkDir_frame:
  assumes "CleanWorkDir w tp s = (tp', s')"
  shows "jobs s' = jobs s \<and> checksums s' = checksums s \<and>
         (\<exists>es. trace s' = trace s @ es \<and> uploads es = [])"
  using assms
  by (auto simp: CleanWorkDir_def Let_def split: if_splits option.splits)

lemma Close_frame:
  assumes "Close w tp s = (tp', s')"
  shows "jobs s' = jobs s \<and> checksums s' = checksums s \<and>
         (\<exists>es. trace s' = trace s @ es \<and> uploads es = [])"
proof -
  obtain tp1 s1 where a: "CleanOriginalFile w tp s = (tp1, s1)" by (cases "CleanOriginalFile w tp s")
  with assms have b: "CleanWorkDir w tp1 s1 = (tp', s')" by (simp add: Close_def)
  from CleanOriginalFile_frame[OF a] CleanWorkDir_frame[OF b] show ?thesis by auto
qed

lemma SHA1_frame:
  assumes "SHA1 w f s = (r, s')"
  shows "jobs s' = jobs s \<and> checksums s' = checksums s \<and> trace s' = trace s @ [Sha1 f] \<and> r = sha1Res w f"
  using assms by (auto simp: SHA1_def)

lemma uploadUpstream_frame:
  assumes "uploadUpstream w f n s = (r, s')"
  shows "jobs s' = jobs s \<and> checksums s' = checksums s \<and>
         (\<exists>es. trace s' = trace s @ Upload f n # es \<and> uploads es = [])"
  using assms
  by (auto simp: uploadUpstream_def Let_def split: if_splits do_result.splits)

lemma uploadUpstream_indep:
  "fst (uploadUpstream w f n s) = fst (uploadUpstream w f' n' s')"
  by (simp add: uploadUpstream_def Let_def split: do_result.splits)


lemma CleanOriginalFile_session:
  assumes "CleanOriginalFile w tp s = (tp', s')"
  shows "ProcessedFile tp' = ProcessedFile tp \<and> tempWorkDir tp' = tempWorkDir tp"
  using assms
  by (auto simp: CleanOriginalFile_def Let_def split: if_splits option.splits)


text \<open>The five ways through the body of a job that has a session.\<close>

lemma job_with_processor_cases:
  assumes "job_with_processor w h j tp0 s0 = (r, s')"
  obtains
    (panic) tp1 s2 where
      "Run w tp0 (emit FormRemoveAll (emit FormFileClose s0)) = (Panics, tp1, s2)"
      "r = Panics" "s' = snd (Close w tp1 s2)"
  | (fail) e tp1 s2 where
      "Run w tp0 (emit FormRemoveAll (emit FormFileClose s0)) = (Fail e, tp1, s2)"
      "r = Fail (ProcessFailed j e)" "s' = snd (Close w tp1 s2)"
  | (original) tp1 s2 tp2 s3 s4 where
      "Run w tp0 (emit FormRemoveAll (emit FormFileClose s0)) = (Ret (), tp1, s2)"
      "OriginalSize tp1 \<le> ProcessedSize tp1"
      "CleanWorkDir w tp1 s2 = (tp2, s3)"
      "upload_and_record w (Some tp2) (OriginalFile tp1) (Filename h) True [] s3 = (r, s4)"
      "s' = snd (Close w tp2 s4)"
  | (nohash) tp1 s2 s3 where
      "Run w tp0 (emit FormRemoveAll (emit FormFileClose s0)) = (Ret (), tp1, s2)"
      "ProcessedSize tp1 < OriginalSize tp1"
      "SHA1 w (OriginalFile tp1) s2 = (None, s3)"
      "r = Fail Sha1Failed" "s' = snd (Close w tp1 s3)"
  | (processed) tp1 s2 originalHash s3 tp2 s4 s5 where
      "Run w tp0 (emit FormRemoveAll (emit FormFileClose s0)) = (Ret (), tp1, s2)"
      "ProcessedSize tp1 < OriginalSize tp1"
      "SHA1 w (OriginalFile tp1) s2 = (Some originalHash, s3)"
      "CleanOriginalFile w tp1 s3 = (tp2, s4)"
      "upload_and_record w (Some tp2) (ProcessedFile tp1) (ProcessedFilename tp1) False
         originalHash s4 = (r, s5)"
      "s' = snd (Close w tp2 s5)"
proof -
  obtain r1 tp1 s2 where run:
    "Run w tp0 (emit FormRemoveAll (emit FormFileClose s0)) = (r1, tp1, s2)"
    by (cases "Run w tp0 (emit FormRemoveAll (emit FormFileClose s0))") auto
  show thesis
  proof (cases r1)
    case Panics
    with run assms panic show ?thesis
      by (auto simp: job_with_processor_def Let_def split: prod.splits)
  next
    case (Fail e)
    with run assms fail show ?thesis
      by (auto simp: job_with_processor_def Let_def split: prod.splits)
  next
    case (Ret u)
    show ?thesis
    proof (cases "OriginalSize tp1 \<le> ProcessedSize tp1")
      case True
      obtain tp2 s3 where c: "CleanWorkDir w tp1 s2 = (tp2, s3)"
        by (cases "CleanWorkDir w tp1 s2")
      obtain r4 s4 where u:
        "upload_and_record w (Some tp2) (OriginalFile tp1) (Filename h) True [] s3 = (r4, s4)"
        by (cases "upload_and_record w (Some tp2) (OriginalFile tp1) (Filename h) True [] s3")
      from run Ret True c u assms have "r = r4" "s' = snd (Close w tp2 s4)"
        by (auto simp: job_with_processor_def Let_def split: prod.splits)
      with original[OF _ True c] run Ret u show ?thesis by auto
    next
      case False
      then have lt: "ProcessedSize tp1 < OriginalSize tp1" by simp
      obtain ho s3 where h1: "SHA1 w (OriginalFile tp1) s2 = (ho, s3)"
        by (cases "SHA1 w (OriginalFile tp1) s2")
      show ?thesis
      proof (cases ho)
        case None
        with run Ret False h1 assms have "r = Fail Sha1Failed" "s' = snd (Close w tp1 s3)"
          by (auto simp: job_with_processor_def Let_def split: prod.splits)
        with nohash[OF _ lt] run Ret h1 None show ?thesis by auto
      next
        case (Some originalHash)
        obtain tp2 s4 where c: "CleanOriginalFile w tp1 s3 = (tp2, s4)"
          by (cases "CleanOriginalFile w tp1 s3")
        obtain r5 s5 where u:
          "upload_and_record w (Some tp2) (ProcessedFile tp1) (ProcessedFilename tp1) False
             originalHash s4 = (r5, s5)"
          by (cases "upload_and_record w (Some tp2) (ProcessedFile tp1) (ProcessedFilename tp1)
                False originalHash s4")
        from run Ret False h1 Some c u assms have "r = r5" "s' = snd (Close w tp2 s5)"
          by (auto simp: job_with_processor_def Let_def split: prod.splits)
        with processed[OF _ lt _ c] run Ret h1 Some u show ?thesis by auto
      qed
    qed
  qed
qed

section \<open>The job coordinator: adding up the steps\<close>

lemma quiet_refl [simp]: "quiet s s"
  by (simp add: quiet_def)

lemma quiet_trans: "quiet s s' \<Longrightarrow> quiet s' s'' \<Longrightarrow> quiet s s''"
  by (auto simp: quiet_def)

lemma quiet_emit: "uploads [e] = [] \<Longrightarrow> quiet s (emit e s)"
  by (simp add: quiet_def)

lemma quiet_uploads:
  "quiet s s' \<Longrightarrow> uploads (trace s') = uploads (trace s) \<and> checksums s' = checksums s"
  by (auto simp: quiet_def)

lemma quiet_Close: "quiet s (snd (Close w tp s))"
  using Close_frame[of w tp s "fst (Close w tp s)" "snd (Close w tp s)"]
  by (simp add: quiet_def)

lemma quiet_form_release: "quiet s (emit FormRemoveAll (emit FormFileClose s))"
  by (simp add: quiet_def)

lemma grows_refl [simp]: "grows s s"
  by (simp add: grows_def)



lemma quiet_NewTaskProcessor:
  "NewTaskProcessorFromMultipart w h s = (r, s') \<Longrightarrow> quiet s s'"
  using NewTaskProcessor_frame by (simp add: quiet_def)

lemma quiet_Run: "Run w tp s = (r, tp', s') \<Longrightarrow> quiet s s'"
  using Run_frame by (simp add: quiet_def)

lemma quiet_CleanOriginalFile: "CleanOriginalFile w tp s = (tp', s') \<Longrightarrow> quiet s s'"
  using CleanOriginalFile_frame by (simp add: quiet_def)


lemma quiet_SHA1: "SHA1 w f s = (r, s') \<Longrightarrow> quiet s s'"
  by (auto simp: SHA1_def quiet_def)





lemma Run_session:
  assumes "Run w tp s = (r, tp', s')"
  shows "OriginalFile tp' = OriginalFile tp \<and> OriginalSize tp' = OriginalSize tp"
  using assms
  by (auto simp: Run_def Let_def split: if_splits option.splits list.splits)

lemma upload_and_record_uploads:
  assumes "upload_and_record w tpo f n orig h s = (r, s')"
  shows "uploads (trace s') = uploads (trace s) @ [(f, n)]"
proof -
  obtain r1 s1 where u: "uploadUpstream w f n s = (r1, s1)" by (cases "uploadUpstream w f n s")
  then show ?thesis using assms
    by (auto simp: upload_and_record_def uploadUpstream_def SHA1_def addChecksums_def Let_def
        split: if_splits do_result.splits result.splits option.splits)
qed


lemma upload_and_record_recorded:
  assumes "upload_and_record w (Some tp) f n False h s = (r, s')"
    and "fst (uploadUpstream w f n s) \<noteq> Panics"
    and "sha1Res w (ProcessedFile tp) = Some nh"
  shows "r = Ret () \<and> checksums s' = checksums s @ [(nh, h)]"
proof -
  obtain r1 s1 where u: "uploadUpstream w f n s = (r1, s1)" by (cases "uploadUpstream w f n s")
  from uploadUpstream_frame[OF u] have c: "checksums s1 = checksums s" by simp
  from u assms(2) have np: "r1 \<noteq> Panics" by simp
  show ?thesis
  proof (cases r1)
    case (Ret x)
    with u assms(1,3) c show ?thesis
      by (auto simp: upload_and_record_def SHA1_def addChecksums_def)
  next
    case (Fail e)
    with u assms(1,3) c show ?thesis
      by (auto simp: upload_and_record_def SHA1_def addChecksums_def)
  next
    case Panics
    with np show ?thesis by simp
  qed
qed

lemma upload_and_record_after_error:
  assumes "upload_and_record w (Some tp) f n False h s = (r, s')"
    and "fst (uploadUpstream w f n s) = Fail e"
    and "sha1Res w (ProcessedFile tp) = Some nh"
  shows "\<exists>mid. trace s' = trace s @ Upload f n # mid @ [HttpError 500, Sha1 (ProcessedFile tp)]"
proof -
  obtain r1 s1 where u: "uploadUpstream w f n s = (r1, s1)" by (cases "uploadUpstream w f n s")
  from uploadUpstream_frame[OF u] obtain es where t: "trace s1 = trace s @ Upload f n # es"
    by auto
  from u assms(2) have "r1 = Fail e" by simp
  with u assms(1,3) have "trace s' = trace s1 @ [HttpError 500, Sha1 (ProcessedFile tp)]"
    by (auto simp: upload_and_record_def SHA1_def addChecksums_def)
  with t show ?thesis by simp
qed

lemma job_with_processor_failed_run:
  assumes run: "fst (Run w tp sb) = Fail e"
    and job: "job_with_processor w h j tp s0 = (r, s')"
  shows "r = Fail (ProcessFailed j e) \<and> quiet s0 s'"
proof -
  let ?s1 = "emit FormRemoveAll (emit FormFileClose s0)"
  from run Run_indep[of w tp ?s1 sb] have r1: "fst (Run w tp ?s1) = Fail e" by simp
  from job show ?thesis
  proof (cases rule: job_with_processor_cases)
    case (fail e' tp1 s2)
    with r1 have "e' = e" by simp
    moreover have "quiet ?s1 s2" using fail(1) by (rule quiet_Run)
    moreover have "quiet s2 s'" unfolding fail(3) by (rule quiet_Close)
    ultimately show ?thesis using fail(2) quiet_form_release[of s0]
      by (blast intro: quiet_trans)
  qed (use r1 in simp_all)
qed


lemma job_with_processor_sends_processed:
  assumes run: "fst (Run w tp sb) = Ret ()"
    and size: "ProcessedSize (fst (snd (Run w tp sb))) < OriginalSize (fst (snd (Run w tp sb)))"
    and hash: "sha1Res w (OriginalFile tp) = Some originalHash"
    and job: "job_with_processor w h j tp s0 = (r, s')"
  shows "uploads (trace s') = uploads (trace s0) @
           [(ProcessedFile (fst (snd (Run w tp sb))), ProcessedFilename (fst (snd (Run w tp sb))))]"
    and "fst (uploadUpstream w f n su) \<noteq> Panics \<Longrightarrow>
         sha1Res w (ProcessedFile (fst (snd (Run w tp sb)))) = Some newHash \<Longrightarrow>
         r = Ret () \<and> checksums s' = checksums s0 @ [(newHash, originalHash)]"
    and "fst (uploadUpstream w f n su) = Fail e \<Longrightarrow>
         sha1Res w (ProcessedFile (fst (snd (Run w tp sb)))) = Some newHash \<Longrightarrow>
         \<exists>pre mid post. trace s' = trace s0 @ pre @
            Upload (ProcessedFile (fst (snd (Run w tp sb))))
                   (ProcessedFilename (fst (snd (Run w tp sb)))) #
            mid @ [HttpError 500, Sha1 (ProcessedFile (fst (snd (Run w tp sb))))] @ post"
proof -
  let ?s1 = "emit FormRemoveAll (emit FormFileClose s0)"
  let ?tp' = "fst (snd (Run w tp sb))"
  from run Run_indep[of w tp ?s1 sb] have r1: "fst (Run w tp ?s1) = Ret ()" by simp
  from Run_indep[of w tp ?s1 sb]
  have tp1: "fst (snd (Run w tp ?s1)) = ?tp'" by simp
  from job have "uploads (trace s') = uploads (trace s0) @ [(ProcessedFile ?tp', ProcessedFilename ?tp')]
    \<and> (fst (uploadUpstream w f n su) \<noteq> Panics \<longrightarrow>
         sha1Res w (ProcessedFile ?tp') = Some newHash \<longrightarrow>
         r = Ret () \<and> checksums s' = checksums s0 @ [(newHash, originalHash)])
    \<and> (fst (uploadUpstream w f n su) = Fail e \<longrightarrow>
         sha1Res w (ProcessedFile ?tp') = Some newHash \<longrightarrow>
         (\<exists>pre mid post. trace s' = trace s0 @ pre @
            Upload (ProcessedFile ?tp') (ProcessedFilename ?tp') #
            mid @ [HttpError 500, Sha1 (ProcessedFile ?tp')] @ post))"
  proof (cases rule: job_with_processor_cases)
    case (nohash tp1 s2 s3)
    from Run_session[OF nohash(1)] SHA1_frame[OF nohash(3)] hash show ?thesis by simp
  next
    case (processed tp1 s2 oh s3 tp2 s4 s5)
    from tp1 processed(1) have eq: "tp1 = ?tp'" by simp
    from Run_session[OF processed(1)] SHA1_frame[OF processed(3)] hash
    have oh: "oh = originalHash" by simp
    from CleanOriginalFile_session[OF processed(4)]
    have pf: "ProcessedFile tp2 = ProcessedFile tp1" by simp
    have q1: "quiet s0 s4"
      using quiet_form_release[of s0] quiet_Run[OF processed(1)] quiet_SHA1[OF processed(3)]
        quiet_CleanOriginalFile[OF processed(4)]
      by (blast intro: quiet_trans)
    have q2: "quiet s5 s'" unfolding processed(6) by (rule quiet_Close)
    have up: "fst (uploadUpstream w (ProcessedFile tp1) (ProcessedFilename tp1) s4)
                = fst (uploadUpstream w f n su)"
      by (rule uploadUpstream_indep)
    have a: "uploads (trace s') = uploads (trace s0) @ [(ProcessedFile ?tp', ProcessedFilename ?tp')]"
      using upload_and_record_uploads[OF processed(5)] quiet_uploads[OF q1] quiet_uploads[OF q2] eq
      by simp
    have b: "r = Ret () \<and> checksums s' = checksums s0 @ [(newHash, originalHash)]"
      if "fst (uploadUpstream w f n su) \<noteq> Panics" "sha1Res w (ProcessedFile ?tp') = Some newHash"
      using upload_and_record_recorded[OF processed(5), of newHash] that up pf eq oh
        quiet_uploads[OF q1] quiet_uploads[OF q2]
      by simp
    have c: "\<exists>pre mid post. trace s' = trace s0 @ pre @
            Upload (ProcessedFile ?tp') (ProcessedFilename ?tp') #
            mid @ [HttpError 500, Sha1 (ProcessedFile ?tp')] @ post"
      if "fst (uploadUpstream w f n su) = Fail e" "sha1Res w (ProcessedFile ?tp') = Some newHash"
    proof -
      from upload_and_record_after_error[OF processed(5), of e newHash] that up pf eq
      obtain mid where m: "trace s5 = trace s4 @ Upload (ProcessedFile ?tp') (ProcessedFilename ?tp') #
          mid @ [HttpError 500, Sha1 (ProcessedFile ?tp')]" by auto
      from q1 obtain pre where p: "trace s4 = trace s0 @ pre" by (auto simp: quiet_def)
      from q2 obtain post where q: "trace s' = trace s5 @ post" by (auto simp: quiet_def)
      from m p q show ?thesis by auto
    qed
    from a b c show ?thesis by blast
  qed (use r1 tp1 size in auto)
  then show "uploads (trace s') = uploads (trace s0) @
           [(ProcessedFile (fst (snd (Run w tp sb))), ProcessedFilename (fst (snd (Run w tp sb))))]"
    and "fst (uploadUpstream w f n su) \<noteq> Panics \<Longrightarrow>
         sha1Res w (ProcessedFile (fst (snd (Run w tp sb)))) = Some newHash \<Longrightarrow>
         r = Ret () \<and> checksums s' = checksums s0 @ [(newHash, originalHash)]"
    and "fst (uploadUpstream w f n su) = Fail e \<Longrightarrow>
         sha1Res w (ProcessedFile (fst (snd (Run w tp sb)))) = Some newHash \<Longrightarrow>
         \<exists>pre mid post. trace s' = trace s0 @ pre @
            Upload (ProcessedFile (fst (snd (Run w tp sb))))
                   (ProcessedFilename (fst (snd (Run w tp sb)))) #
            mid @ [HttpError 500, Sha1 (ProcessedFile (fst (snd (Run w tp sb))))] @ post"
    by blast+
qed



section \<open>The job coordinator: one whole request\<close>

lemma registered_fields [simp]:
  "trace (registered w h s) = trace s @ [JobsStore (jobKey w h) (jobIdCounter s + 1)]"
  "checksums (registered w h s) = checksums s"
  "fs (registered w h s) = fs s"
  by (simp_all add: registered_def)

lemma newJob_registered:
  assumes "formFileRes w = Some header" "jobs s (jobKey w header) = None"
    and "job_registered w header (jobIdCounter s + 1) (registered w header s) = (r, s2)"
  shows "newJob w s =
           (r, emit FormRemoveAll (emit FormFileClose
                 (emit (JobsDelete (jobKey w header))
                    (s2\<lparr>jobs := jobs_Delete (jobs s2) (jobKey w header)\<rparr>))))"
  using assms by (simp add: newJob_def Let_def jobs_Load_def registered_def)

lemma newJob_observed:
  assumes "formFileRes w = Some header" "jobs s (jobKey w header) = None"
    and "job_registered w header (jobIdCounter s + 1) (registered w header s) = (r, s2)"
  shows "fst (newJob w s) = r"
    and "uploads (trace (snd (newJob w s))) = uploads (trace s2)"
    and "checksums (snd (newJob w s)) = checksums s2"
    and "fs (snd (newJob w s)) = fs s2"
    and "filter is_pipeline_event (trace (snd (newJob w s))) = filter is_pipeline_event (trace s2)"
    and "\<exists>post. trace (snd (newJob w s)) = trace s2 @ post"
  using newJob_registered[OF assms] by simp_all

lemma job_registered_with_session:
  assumes "fst (NewTaskProcessorFromMultipart w h sa) = Inr tp"
    and "job_registered w h j s = (r, s')"
  obtains s1 where "quiet s s1" "job_with_processor w h j tp s1 = (r, s')"
proof -
  obtain c s1 where n: "NewTaskProcessorFromMultipart w h s = (c, s1)"
    by (cases "NewTaskProcessorFromMultipart w h s")
  with assms(1) NewTaskProcessor_indep[of w h s sa] have c: "c = Inr tp" by simp
  with n assms(2) have "job_with_processor w h j tp s1 = (r, s')"
    by (simp add: job_registered_def)
  with quiet_NewTaskProcessor[OF n] that show thesis by blast
qed

text \<open>
  C5. When \<open>Run\<close> returns an error the job returns that error wrapped, and nothing was
  uploaded: the uploads of the trace are those before the request, and no hash pair
  was recorded.
\<close>
theorem newJob_pipeline_error_aborts:
  assumes "formFileRes w = Some header"
    and "jobs s (jobKey w header) = None"
    and "fst (NewTaskProcessorFromMultipart w header sa) = Inr tp"
    and "fst (Run w tp sb) = Fail e"
  shows "fst (newJob w s) = Fail (ProcessFailed (jobIdCounter s + 1) e) \<and>
         uploads (trace (snd (newJob w s))) = uploads (trace s) \<and>
         checksums (snd (newJob w s)) = checksums s"
proof -
  obtain r s2 where b:
    "job_registered w header (jobIdCounter s + 1) (registered w header s) = (r, s2)"
    by (cases "job_registered w header (jobIdCounter s + 1) (registered w header s)")
  from assms(3) b obtain s1 where q: "quiet (registered w header s) s1"
    and j: "job_with_processor w header (jobIdCounter s + 1) tp s1 = (r, s2)"
    by (rule job_registered_with_session)
  from job_with_processor_failed_run[OF assms(4) j]
  have r: "r = Fail (ProcessFailed (jobIdCounter s + 1) e)" and q2: "quiet s1 s2" by simp_all
  from quiet_uploads[OF q] quiet_uploads[OF q2] r newJob_observed(1-3)[OF assms(1,2) b]
  show ?thesis by simp
qed

theorem newJob_pipeline_error_aborts_witness:
  "formFileRes (photo_world\<lparr>cmdExitOk := False\<rparr>) = Some photo_header \<and>
   jobs idle (jobKey (photo_world\<lparr>cmdExitOk := False\<rparr>) photo_header) = None \<and>
   fst (NewTaskProcessorFromMultipart (photo_world\<lparr>cmdExitOk := False\<rparr>) photo_header idle)
     = Inr photo_session \<and>
   fst (Run (photo_world\<lparr>cmdExitOk := False\<rparr>) photo_session idle) = Fail CommandFailed \<and>
   fst (newJob (photo_world\<lparr>cmdExitOk := False\<rparr>) idle) = Fail (ProcessFailed 1 CommandFailed) \<and>
   uploads (trace (snd (newJob (photo_world\<lparr>cmdExitOk := False\<rparr>) idle))) = [] \<and>
   checksums (snd (newJob (photo_world\<lparr>cmdExitOk := False\<rparr>) idle)) = []"
proof -
  let ?w = "photo_world\<lparr>cmdExitOk := False\<rparr>"
  have h1: "formFileRes ?w = Some photo_header" by (simp add: photo_world_def)
  have h2: "jobs idle (jobKey ?w photo_header) = None" by (simp add: idle_def)
  have h3: "fst (NewTaskProcessorFromMultipart ?w photo_header idle) = Inr photo_session"
    by code_simp
  have h4: "fst (Run ?w photo_session idle) = Fail CommandFailed" by code_simp
  from newJob_pipeline_error_aborts[OF h1 h2 h3 h4] h1 h2 h3 h4 show ?thesis
    by (simp add: idle_def)
qed

lemma upload_and_record_fs:
  assumes "upload_and_record w tpo f n orig h s = (r, s')"
  shows "fs s' = fs s"
proof -
  obtain r1 s1 where u: "uploadUpstream w f n s = (r1, s1)" by (cases "uploadUpstream w f n s")
  then show ?thesis using assms
    by (auto simp: upload_and_record_def uploadUpstream_def SHA1_def addChecksums_def Let_def
        emit_def
        split: if_splits do_result.splits result.splits option.splits)
qed




lemma Run_keeps_original:
  "OriginalFile (fst (snd (Run w tp s))) = OriginalFile tp \<and>
   OriginalSize (fst (snd (Run w tp s))) = OriginalSize tp"
  using Run_session[of w tp s "fst (Run w tp s)" "fst (snd (Run w tp s))" "snd (snd (Run w tp s))"]
  by simp




text \<open>
  C10. For a job that chose the processed file: when \<open>uploadUpstream\<close> returns an error,
  the job writes the error response (status 500), then computes the hash of the processed
  file, and, that hash computed, appends the pair to the checksum store and returns
  without error.
\<close>

theorem newJob_records_after_failed_upload:
  assumes "formFileRes w = Some header"
    and "jobs s (jobKey w header) = None"
    and "fst (NewTaskProcessorFromMultipart w header sa) = Inr tp"
    and "fst (Run w tp sb) = Ret ()"
    and "ProcessedSize (fst (snd (Run w tp sb))) < OriginalSize tp"
    and "sha1Res w (OriginalFile tp) = Some originalHash"
    and "fst (uploadUpstream w f n su) = Fail e"
    and "sha1Res w (ProcessedFile (fst (snd (Run w tp sb)))) = Some newHash"
  shows "fst (newJob w s) = Ret () \<and>
         checksums (snd (newJob w s)) = checksums s @ [(newHash, originalHash)] \<and>
         (\<exists>pre mid post. trace (snd (newJob w s)) =
            trace s @ pre @
            Upload (ProcessedFile (fst (snd (Run w tp sb))))
                   (ProcessedFilename (fst (snd (Run w tp sb)))) #
            mid @ [HttpError 500, Sha1 (ProcessedFile (fst (snd (Run w tp sb))))] @ post)"
proof -
  obtain r s2 where b:
    "job_registered w header (jobIdCounter s + 1) (registered w header s) = (r, s2)"
    by (cases "job_registered w header (jobIdCounter s + 1) (registered w header s)")
  from assms(3) b obtain s1 where q: "quiet (registered w header s) s1"
    and j: "job_with_processor w header (jobIdCounter s + 1) tp s1 = (r, s2)"
    by (rule job_registered_with_session)
  from assms(5) Run_keeps_original[of w tp sb]
  have lt: "ProcessedSize (fst (snd (Run w tp sb))) < OriginalSize (fst (snd (Run w tp sb)))"
    by simp
  from assms(7) have np: "fst (uploadUpstream w f n su) \<noteq> Panics" by simp
  from job_with_processor_sends_processed(2)[OF assms(4) lt assms(6) j np assms(8)]
  have r: "r = Ret ()" and c: "checksums s2 = checksums s1 @ [(newHash, originalHash)]"
    by simp_all
  from job_with_processor_sends_processed(3)[OF assms(4) lt assms(6) j assms(7,8)]
  obtain pre mid post where t: "trace s2 = trace s1 @ pre @
            Upload (ProcessedFile (fst (snd (Run w tp sb))))
                   (ProcessedFilename (fst (snd (Run w tp sb)))) #
            mid @ [HttpError 500, Sha1 (ProcessedFile (fst (snd (Run w tp sb))))] @ post"
    by blast
  from q obtain es where t1: "trace s1 = trace (registered w header s) @ es"
    by (auto simp: quiet_def)
  from newJob_observed(6)[OF assms(1,2) b] obtain post' where
    t2: "trace (snd (newJob w s)) = trace s2 @ post'" by blast
  have "trace (snd (newJob w s)) =
            trace s @ (JobsStore (jobKey w header) (jobIdCounter s + 1) # es @ pre) @
            Upload (ProcessedFile (fst (snd (Run w tp sb))))
                   (ProcessedFilename (fst (snd (Run w tp sb)))) #
            mid @ [HttpError 500, Sha1 (ProcessedFile (fst (snd (Run w tp sb))))] @ (post @ post')"
    using t t1 t2 by simp
  then have "\<exists>pre mid post. trace (snd (newJob w s)) =
            trace s @ pre @
            Upload (ProcessedFile (fst (snd (Run w tp sb))))
                   (ProcessedFilename (fst (snd (Run w tp sb)))) #
            mid @ [HttpError 500, Sha1 (ProcessedFile (fst (snd (Run w tp sb))))] @ post"
    by blast
  with r c newJob_observed(1,3)[OF assms(1,2) b] quiet_uploads[OF q]
  show ?thesis by simp
qed

theorem newJob_records_after_failed_upload_witness:
  "formFileRes (photo_world\<lparr>forwardOk := False\<rparr>) = Some photo_header \<and>
   jobs idle (jobKey (photo_world\<lparr>forwardOk := False\<rparr>) photo_header) = None \<and>
   fst (NewTaskProcessorFromMultipart (photo_world\<lparr>forwardOk := False\<rparr>) photo_header idle)
     = Inr photo_session \<and>
   fst (Run (photo_world\<lparr>forwardOk := False\<rparr>) photo_session idle) = Ret () \<and>
   ProcessedSize (fst (snd (Run (photo_world\<lparr>forwardOk := False\<rparr>) photo_session idle)))
     < OriginalSize photo_session \<and>
   sha1Res (photo_world\<lparr>forwardOk := False\<rparr>) (OriginalFile photo_session) = Some ''hashA'' \<and>
   fst (uploadUpstream (photo_world\<lparr>forwardOk := False\<rparr>) None [] idle)
     = Fail ForwardResponseFailed \<and>
   sha1Res (photo_world\<lparr>forwardOk := False\<rparr>)
     (ProcessedFile (fst (snd (Run (photo_world\<lparr>forwardOk := False\<rparr>) photo_session idle))))
     = Some ''hashB'' \<and>
   fst (newJob (photo_world\<lparr>forwardOk := False\<rparr>) idle) = Ret () \<and>
   checksums (snd (newJob (photo_world\<lparr>forwardOk := False\<rparr>) idle)) = [(''hashB'', ''hashA'')]"
proof -
  let ?w = "photo_world\<lparr>forwardOk := False\<rparr>"
  have h1: "formFileRes ?w = Some photo_header" by (simp add: photo_world_def)
  have h2: "jobs idle (jobKey ?w photo_header) = None" by (simp add: idle_def)
  have h3: "fst (NewTaskProcessorFromMultipart ?w photo_header idle) = Inr photo_session"
    by code_simp
  have h4: "fst (Run ?w photo_session idle) = Ret ()" by code_simp
  have h5: "ProcessedSize (fst (snd (Run ?w photo_session idle))) < OriginalSize photo_session"
    by code_simp
  have h6: "sha1Res ?w (OriginalFile photo_session) = Some ''hashA''" by code_simp
  have h7: "fst (uploadUpstream ?w None [] idle) = Fail ForwardResponseFailed" by code_simp
  have h8: "sha1Res ?w (ProcessedFile (fst (snd (Run ?w photo_session idle)))) = Some ''hashB''"
    by code_simp
  have e: "checksums idle = []" by (simp add: idle_def)
  from newJob_records_after_failed_upload[OF h1 h2 h3 h4 h5 h6 h7 h8] e
  have "fst (newJob ?w idle) = Ret () \<and>
        checksums (snd (newJob ?w idle)) = [(''hashB'', ''hashA'')]" by simp
  with h1 h2 h3 h4 h5 h6 h7 h8 show ?thesis by blast
qed

section \<open>The conversion pipeline\<close>

lemma ext_scan_stops_at_slash:
  "CHR ''/'' \<notin> set xs \<Longrightarrow> ext_scan (xs @ CHR ''/'' # ys) acc = ext_scan xs acc"
proof (induction xs arbitrary: acc)
  case Nil
  then show ?case by simp
next
  case (Cons x xs)
  then show ?case by simp
qed

lemma path_Ext_Join:
  "CHR ''/'' \<notin> set name \<Longrightarrow> path_Ext (path_Join dir name) = path_Ext name"
  using ext_scan_stops_at_slash[of "rev name" "rev dir" "[]"]
  by (simp add: path_Ext_def path_Join_def)

lemma TrimSuffix_append: "TrimSuffix (stem @ x) x = stem"
  by (simp add: TrimSuffix_def)

text \<open>
  C4, as amended. After the command has exited successfully: when the result folder
  holds no file or more than one, \<open>Run\<close> returns an error. When it holds exactly one
  file, and the folder can be read and the file opened and inspected, \<open>Run\<close> succeeds;
  the session then holds the open file, the size that \<^verbatim>\<open>os.Stat\<close> reported, the
  extension of the file's path (for an entry name, the extension of the name), and as
  filename the original filename with its extension replaced by that extension. When
  the one file cannot be opened, \<open>Run\<close> returns an error.
\<close>

theorem Run_output_directory:
  assumes "mkdirTempRes w = Some dir"
    and "templateRes w = Some cmdLine"
    and "cmdExitOk w"
  shows "(length (cmdOutputs w) \<noteq> 1 \<longrightarrow>
            fst (Run w tp s) =
              Fail (if readDirOk w then UnexpectedFileCount (length (cmdOutputs w))
                    else ReadDirFailed)) \<and>
         (cmdOutputs w = [name] \<and> readDirOk w \<and> openOk w \<and> statRes w = Some sz \<longrightarrow>
            fst (Run w tp s) = Ret () \<and>
            ProcessedFile (fst (snd (Run w tp s))) = Some (OsFile (path_Join dir name)) \<and>
            ProcessedSize (fst (snd (Run w tp s))) = sz \<and>
            ProcessedExtension (fst (snd (Run w tp s))) = path_Ext (path_Join dir name) \<and>
            (CHR ''/'' \<notin> set name \<longrightarrow>
               ProcessedExtension (fst (snd (Run w tp s))) = path_Ext name) \<and>
            ProcessedFilename (fst (snd (Run w tp s))) =
              TrimSuffix (OriginalFilename tp) (OriginalExtension tp) @
                ProcessedExtension (fst (snd (Run w tp s))) \<and>
            (\<forall>stem. OriginalFilename tp = stem @ OriginalExtension tp \<longrightarrow>
               ProcessedFilename (fst (snd (Run w tp s))) =
                 stem @ ProcessedExtension (fst (snd (Run w tp s))))) \<and>
         (cmdOutputs w = [name] \<and> readDirOk w \<and> \<not> openOk w \<longrightarrow>
            fst (Run w tp s) = Fail OpenTempFailed)"
proof (intro conjI impI)
  assume "length (cmdOutputs w) \<noteq> 1"
  with assms show "fst (Run w tp s) =
      Fail (if readDirOk w then UnexpectedFileCount (length (cmdOutputs w)) else ReadDirFailed)"
    by (cases "cmdOutputs w" rule: list.exhaust; cases "tl (cmdOutputs w)")
       (auto simp: Run_def Let_def split: list.splits)
next
  assume a: "cmdOutputs w = [name] \<and> readDirOk w \<and> \<not> openOk w"
  with assms show "fst (Run w tp s) = Fail OpenTempFailed"
    by (simp add: Run_def Let_def)
next
  assume a: "cmdOutputs w = [name] \<and> readDirOk w \<and> openOk w \<and> statRes w = Some sz"
  with assms show "fst (Run w tp s) = Ret ()"
    and "ProcessedFile (fst (snd (Run w tp s))) = Some (OsFile (path_Join dir name))"
    and "ProcessedSize (fst (snd (Run w tp s))) = sz"
    and e: "ProcessedExtension (fst (snd (Run w tp s))) = path_Ext (path_Join dir name)"
    and f: "ProcessedFilename (fst (snd (Run w tp s))) =
              TrimSuffix (OriginalFilename tp) (OriginalExtension tp) @
                ProcessedExtension (fst (snd (Run w tp s)))"
    by (simp_all add: Run_def Let_def)
  from e show "ProcessedExtension (fst (snd (Run w tp s))) = path_Ext name"
    if "CHR ''/'' \<notin> set name"
    using that by (simp add: path_Ext_Join)
  from f show "\<forall>stem. OriginalFilename tp = stem @ OriginalExtension tp \<longrightarrow>
               ProcessedFilename (fst (snd (Run w tp s))) =
                 stem @ ProcessedExtension (fst (snd (Run w tp s)))"
    by (auto simp: TrimSuffix_append)
qed

theorem Run_output_directory_witness:
  "mkdirTempRes photo_world = Some ''/tmp/processing-1'' \<and>
   templateRes photo_world = Some ''avifenc'' \<and>
   cmdExitOk photo_world \<and>
   cmdOutputs photo_world = [''upload-1.avif''] \<and>
   readDirOk photo_world \<and> openOk photo_world \<and> statRes photo_world = Some 400000 \<and>
   CHR ''/'' \<notin> set ''upload-1.avif'' \<and>
   OriginalFilename photo_session = ''photo'' @ OriginalExtension photo_session \<and>
   fst (Run photo_world photo_session idle) = Ret () \<and>
   ProcessedFile (fst (snd (Run photo_world photo_session idle)))
     = Some (OsFile ''/tmp/processing-1/upload-1.avif'') \<and>
   ProcessedSize (fst (snd (Run photo_world photo_session idle))) = 400000 \<and>
   ProcessedExtension (fst (snd (Run photo_world photo_session idle))) = ''.avif'' \<and>
   ProcessedFilename (fst (snd (Run photo_world photo_session idle))) = ''photo.avif'' \<and>
   length (cmdOutputs (photo_world\<lparr>cmdOutputs := []\<rparr>)) \<noteq> 1 \<and>
   fst (Run (photo_world\<lparr>cmdOutputs := []\<rparr>) photo_session idle)
     = Fail (UnexpectedFileCount 0) \<and>
   length (cmdOutputs (photo_world\<lparr>cmdOutputs := [''a.avif'', ''b.avif'']\<rparr>)) \<noteq> 1 \<and>
   fst (Run (photo_world\<lparr>cmdOutputs := [''a.avif'', ''b.avif'']\<rparr>) photo_session idle)
     = Fail (UnexpectedFileCount 2) \<and>
   \<not> openOk (photo_world\<lparr>openOk := False\<rparr>) \<and>
   fst (Run (photo_world\<lparr>openOk := False\<rparr>) photo_session idle) = Fail OpenTempFailed"
proof -
  let ?zero = "photo_world\<lparr>cmdOutputs := []\<rparr>"
  let ?two = "photo_world\<lparr>cmdOutputs := [''a.avif'', ''b.avif'']\<rparr>"
  let ?shut = "photo_world\<lparr>openOk := False\<rparr>"
  have h: "mkdirTempRes photo_world = Some ''/tmp/processing-1''"
          "templateRes photo_world = Some ''avifenc''" "cmdExitOk photo_world"
    by (simp_all add: photo_world_def)
  have k: "cmdOutputs photo_world = [''upload-1.avif'']" "readDirOk photo_world"
          "openOk photo_world" "statRes photo_world = Some 400000"
    by (simp_all add: photo_world_def)
  have n: "CHR ''/'' \<notin> set ''upload-1.avif''" by simp
  have st: "OriginalFilename photo_session = ''photo'' @ OriginalExtension photo_session"
    by (simp add: photo_session_def)
  have pj: "path_Join ''/tmp/processing-1'' ''upload-1.avif'' = ''/tmp/processing-1/upload-1.avif''"
    by (simp add: path_Join_def)
  have x: "path_Ext (path_Join ''/tmp/processing-1'' ''upload-1.avif'') = ''.avif''" by code_simp
  from Run_output_directory[OF h, of photo_session idle "''upload-1.avif''" 400000] k
  have big: "fst (Run photo_world photo_session idle) = Ret () \<and>
      ProcessedFile (fst (snd (Run photo_world photo_session idle)))
        = Some (OsFile (path_Join ''/tmp/processing-1'' ''upload-1.avif'')) \<and>
      ProcessedSize (fst (snd (Run photo_world photo_session idle))) = 400000 \<and>
      ProcessedExtension (fst (snd (Run photo_world photo_session idle)))
        = path_Ext (path_Join ''/tmp/processing-1'' ''upload-1.avif'') \<and>
      (\<forall>stem. OriginalFilename photo_session = stem @ OriginalExtension photo_session \<longrightarrow>
         ProcessedFilename (fst (snd (Run photo_world photo_session idle))) =
           stem @ ProcessedExtension (fst (snd (Run photo_world photo_session idle))))"
    by blast
  with st have "ProcessedFilename (fst (snd (Run photo_world photo_session idle))) =
      ''photo'' @ ProcessedExtension (fst (snd (Run photo_world photo_session idle)))"
    by blast
  with big x pj
  have one: "fst (Run photo_world photo_session idle) = Ret () \<and>
   ProcessedFile (fst (snd (Run photo_world photo_session idle)))
     = Some (OsFile ''/tmp/processing-1/upload-1.avif'') \<and>
   ProcessedSize (fst (snd (Run photo_world photo_session idle))) = 400000 \<and>
   ProcessedExtension (fst (snd (Run photo_world photo_session idle))) = ''.avif'' \<and>
   ProcessedFilename (fst (snd (Run photo_world photo_session idle))) = ''photo.avif''"
    by simp
  have hz: "mkdirTempRes ?zero = Some ''/tmp/processing-1''"
          "templateRes ?zero = Some ''avifenc''" "cmdExitOk ?zero"
    by (simp_all add: photo_world_def)
  have kz: "length (cmdOutputs ?zero) \<noteq> 1" "readDirOk ?zero" by (simp_all add: photo_world_def)
  from Run_output_directory[OF hz, of photo_session idle] kz
  have zero: "fst (Run ?zero photo_session idle) = Fail (UnexpectedFileCount 0)" by simp
  have ht: "mkdirTempRes ?two = Some ''/tmp/processing-1''"
          "templateRes ?two = Some ''avifenc''" "cmdExitOk ?two"
    by (simp_all add: photo_world_def)
  have kt: "length (cmdOutputs ?two) \<noteq> 1" "readDirOk ?two" by (simp_all add: photo_world_def)
  from Run_output_directory[OF ht, of photo_session idle] kt
  have two: "fst (Run ?two photo_session idle) = Fail (UnexpectedFileCount 2)" by simp
  have hs: "mkdirTempRes ?shut = Some ''/tmp/processing-1''"
          "templateRes ?shut = Some ''avifenc''" "cmdExitOk ?shut"
    by (simp_all add: photo_world_def)
  have ks: "cmdOutputs ?shut = [''upload-1.avif'']" "readDirOk ?shut" "\<not> openOk ?shut"
    by (simp_all add: photo_world_def)
  from Run_output_directory[OF hs, of photo_session idle "''upload-1.avif''"] ks
  have shut: "fst (Run ?shut photo_session idle) = Fail OpenTempFailed" by simp
  from h k n st one kz(1) zero kt(1) two ks(3) shut show ?thesis by blast
qed

text \<open>
  C4 as stated fails where the one produced file cannot be opened: the command exited
  successfully and left exactly one file, yet \<open>Run\<close> returns an error.
\<close>

theorem Run_single_unopenable_file_fails:
  "cmdExitOk (photo_world\<lparr>openOk := False\<rparr>) \<and>
   length (cmdOutputs (photo_world\<lparr>openOk := False\<rparr>)) = 1 \<and>
   fst (Run (photo_world\<lparr>openOk := False\<rparr>) photo_session idle) \<noteq> Ret () \<and>
   fst (Run (photo_world\<lparr>openOk := False\<rparr>) photo_session idle) = Fail OpenTempFailed"
  by code_simp

section \<open>The race between two requests\<close>

text \<open>
  C3. The claim: check and registration are one atomic step, so of two requests with the
  same key exactly one registers. In the code they are two steps, and this
  interleaving of two requests with the same key is possible: both load and miss,
  then both store. Both are registered; none is rejected.
\<close>

theorem duplicate_check_race:
  "(interleave key)\<^sup>*\<^sup>* (Map.empty, BeforeLoad, BeforeLoad) ([key \<mapsto> 2], Registered, Registered)"
proof -
  have 1: "interleave key (Map.empty, BeforeLoad, BeforeLoad) (Map.empty, BeforeStore, BeforeLoad)"
    by (rule interleave.first) (simp add: jobs_Load_def)
  have 2: "interleave key (Map.empty, BeforeStore, BeforeLoad) (Map.empty, BeforeStore, BeforeStore)"
    by (rule interleave.second) (simp add: jobs_Load_def)
  have 3: "interleave key (Map.empty, BeforeStore, BeforeStore) ([key \<mapsto> 1], Registered, BeforeStore)"
    by (rule interleave.first) (simp add: jobs_Store_def)
  have 4: "interleave key ([key \<mapsto> 1], Registered, BeforeStore) ([key \<mapsto> 2], Registered, Registered)"
    by (rule interleave.second) (simp add: jobs_Store_def)
  from 1 2 3 4 show ?thesis by (meson rtranclp.intros)
qed

section \<open>Temporary files\<close>

lemma below_Join: "below dir (path_Join dir name)"
  by (simp add: below_def path_Join_def)

lemma below_self: "below dir dir"
  by (simp add: below_def)

lemma Run_fs:
  assumes "Run w tp s = (r, tp', s')"
  shows "tempOriginalFilePath tp' = tempOriginalFilePath tp \<and>
         OriginalFile tp' = OriginalFile tp \<and>
         (case mkdirTempRes w of
            None \<Rightarrow> tempWorkDir tp' = [] \<and> fs s' = fs s
          | Some dir \<Rightarrow> tempWorkDir tp' = dir \<and>
              (\<exists>new. fs s' = new @ fs s \<and> (\<forall>q\<in>set new. below dir q)))"
  using assms
  by (auto simp: Run_def Let_def below_Join below_self
      split: if_splits option.splits list.splits)

lemma CleanWorkDir_fs:
  assumes "CleanWorkDir w tp s = (tp', s')" "removeAllOk w"
  shows "tempOriginalFilePath tp' = tempOriginalFilePath tp \<and>
         OriginalFile tp' = OriginalFile tp \<and>
         tempWorkDir tp' = [] \<and>
         fs s' = (if tempWorkDir tp = [] then fs s
                  else filter (\<lambda>q. \<not> below (tempWorkDir tp) q) (fs s))"
  using assms by (auto simp: CleanWorkDir_def)

lemma CleanOriginalFile_fs:
  assumes "CleanOriginalFile w tp s = (tp', s')" "removeOk w"
  shows "tempOriginalFilePath tp' = [] \<and>
         tempWorkDir tp' = tempWorkDir tp \<and>
         fs s' = (if tempOriginalFilePath tp = [] then fs s
                  else removeAll (tempOriginalFilePath tp) (fs s))"
  using assms
  by (auto simp: CleanOriginalFile_def Let_def split: option.splits if_splits)

lemma Close_fs:
  assumes "removeOk w" "removeAllOk w"
  shows "fs (snd (Close w tp s)) =
           (let xs = (if tempOriginalFilePath tp = [] then fs s
                      else removeAll (tempOriginalFilePath tp) (fs s))
            in if tempWorkDir tp = [] then xs
               else filter (\<lambda>q. \<not> below (tempWorkDir tp) q) xs)"
proof -
  obtain tp1 s1 where a: "CleanOriginalFile w tp s = (tp1, s1)"
    by (cases "CleanOriginalFile w tp s")
  obtain tp2 s2 where b: "CleanWorkDir w tp1 s1 = (tp2, s2)"
    by (cases "CleanWorkDir w tp1 s1")
  from a b have "Close w tp s = (tp2, s2)" by (simp add: Close_def)
  with CleanOriginalFile_fs[OF a assms(1)] CleanWorkDir_fs[OF b assms(2)]
  show ?thesis by (simp add: Let_def)
qed

lemma SHA1_fs: "SHA1 w f s = (r, s') \<Longrightarrow> fs s' = fs s"
  by (auto simp: SHA1_def)

lemma sweep_fresh_dir:
  assumes "\<forall>q\<in>set new. below dir q" "\<forall>q\<in>set xs. \<not> below dir q"
  shows "filter (\<lambda>q. \<not> below dir q) (new @ xs) = xs"
  using assms by (simp add: filter_empty_conv filter_id_conv)

lemma sweep_fresh_dir_removeAll:
  assumes "\<forall>q\<in>set new. below dir q" "\<forall>q\<in>set xs. \<not> below dir q" "\<not> below dir p"
  shows "filter (\<lambda>q. \<not> below dir q) (removeAll p (new @ xs)) = removeAll p xs"
proof -
  have "removeAll p (new @ xs) = removeAll p new @ removeAll p xs" by simp
  moreover have "\<forall>q\<in>set (removeAll p new). below dir q" using assms(1) by simp
  moreover have "\<forall>q\<in>set (removeAll p xs). \<not> below dir q" using assms(2) by simp
  ultimately show ?thesis using sweep_fresh_dir by metis
qed

text \<open>
  The body of a job with a session, on each of its five ways out: the session's file is
  gone and so is everything below the work directory.
\<close>

lemma job_with_processor_fs:
  assumes job: "job_with_processor w h j tp s0 = (r, s')"
    and ok: "removeOk w" "removeAllOk w"
    and tp: "tempOriginalFilePath tp \<noteq> []" "tempWorkDir tp = []"
    and fresh: "\<forall>dir. mkdirTempRes w = Some dir \<longrightarrow>
                  dir \<noteq> [] \<and> \<not> below dir (tempOriginalFilePath tp) \<and>
                  (\<forall>q\<in>set (fs s0). \<not> below dir q)"
  shows "fs s' = removeAll (tempOriginalFilePath tp) (fs s0)"
proof -
  let ?s1 = "emit FormRemoveAll (emit FormFileClose s0)"
  let ?p = "tempOriginalFilePath tp"
  have s1: "fs ?s1 = fs s0" by simp
  have after_run: "fs (snd (Close w tp1 s3)) = removeAll ?p (fs s0)"
    if run: "Run w tp ?s1 = (r1, tp1, s2)" and same: "fs s3 = fs s2" for r1 tp1 s2 s3
  proof (cases "mkdirTempRes w")
    case None
    with Run_fs[OF run] tp s1 same show ?thesis
      by (simp add: Close_fs[OF ok] Let_def)
  next
    case (Some dir)
    with Run_fs[OF run] obtain new where
      f: "tempOriginalFilePath tp1 = ?p" "tempWorkDir tp1 = dir" "fs s2 = new @ fs s0"
         "\<forall>q\<in>set new. below dir q"
      using s1 by auto
    from fresh Some have d: "dir \<noteq> []" "\<not> below dir ?p" "\<forall>q\<in>set (fs s0). \<not> below dir q"
      by auto
    from f d tp same sweep_fresh_dir_removeAll[OF f(4) d(3) d(2)] show ?thesis
      by (simp add: Close_fs[OF ok] Let_def)
  qed
  from job show ?thesis
  proof (cases rule: job_with_processor_cases)
    case (panic tp1 s2)
    from after_run[OF panic(1)] panic(3) show ?thesis by simp
  next
    case (fail e tp1 s2)
    from after_run[OF fail(1)] fail(3) show ?thesis by simp
  next
    case (nohash tp1 s2 s3)
    from after_run[OF nohash(1) SHA1_fs[OF nohash(3)]] nohash(5) show ?thesis by simp
  next
    case (original tp1 s2 tp2 s3 s4)
    have u: "fs s4 = fs s3" using original(4) by (rule upload_and_record_fs)
    show ?thesis
    proof (cases "mkdirTempRes w")
      case None
      with Run_fs[OF original(1)] have "tempOriginalFilePath tp1 = ?p" "tempWorkDir tp1 = []"
        "fs s2 = fs s0" using s1 by auto
      with CleanWorkDir_fs[OF original(3) ok(2)] u tp original(5) show ?thesis
        by (simp add: Close_fs[OF ok] Let_def)
    next
      case (Some dir)
      with Run_fs[OF original(1)] obtain new where
        f: "tempOriginalFilePath tp1 = ?p" "tempWorkDir tp1 = dir" "fs s2 = new @ fs s0"
           "\<forall>q\<in>set new. below dir q"
        using s1 by auto
      from fresh Some have d: "dir \<noteq> []" "\<forall>q\<in>set (fs s0). \<not> below dir q" by auto
      from CleanWorkDir_fs[OF original(3) ok(2)] f d u tp original(5)
        sweep_fresh_dir[OF f(4) d(2)]
      show ?thesis by (simp add: Close_fs[OF ok] Let_def)
    qed
  next
    case (processed tp1 s2 originalHash s3 tp2 s4 s5)
    have u: "fs s5 = fs s4" using processed(5) by (rule upload_and_record_fs)
    have h: "fs s3 = fs s2" using processed(3) by (rule SHA1_fs)
    show ?thesis
    proof (cases "mkdirTempRes w")
      case None
      with Run_fs[OF processed(1)] have "tempOriginalFilePath tp1 = ?p" "tempWorkDir tp1 = []"
        "fs s2 = fs s0" using s1 by auto
      with CleanOriginalFile_fs[OF processed(4) ok(1)] u h tp processed(6) show ?thesis
        by (simp add: Close_fs[OF ok] Let_def)
    next
      case (Some dir)
      with Run_fs[OF processed(1)] obtain new where
        f: "tempOriginalFilePath tp1 = ?p" "tempWorkDir tp1 = dir" "fs s2 = new @ fs s0"
           "\<forall>q\<in>set new. below dir q"
        using s1 by auto
      from fresh Some have d: "dir \<noteq> []" "\<not> below dir ?p" "\<forall>q\<in>set (fs s0). \<not> below dir q"
        by auto
      from CleanOriginalFile_fs[OF processed(4) ok(1)] f d u h tp processed(6)
        sweep_fresh_dir_removeAll[OF f(4) d(3) d(2)]
      show ?thesis by (simp add: Close_fs[OF ok] Let_def)
    qed
  qed
qed

lemma NewTaskProcessor_fs:
  assumes "NewTaskProcessorFromMultipart w h s = (Inr tp, s')"
  shows "fs s' = tempOriginalFilePath tp # fs s \<and> tempWorkDir tp = []"
  using assms
  by (auto simp: NewTaskProcessorFromMultipart_def Let_def split: if_splits option.splits)

text \<open>
  Once the session exists, a job leaves the temporary files as it found them, whichever
  way it ends (return, error or panic), provided the removals themselves succeed and
  \<^verbatim>\<open>os.CreateTemp\<close> and \<^verbatim>\<open>os.MkdirTemp\<close> made fresh names.
\<close>

lemma newJob_session_cleanup:
  assumes "formFileRes w = Some header"
    and "jobs s (jobKey w header) = None"
    and "fst (NewTaskProcessorFromMultipart w header sa) = Inr tp"
    and ok: "removeOk w" "removeAllOk w"
    and tmp: "tempOriginalFilePath tp \<noteq> []" "tempOriginalFilePath tp \<notin> set (fs s)"
    and dir: "\<forall>dir. mkdirTempRes w = Some dir \<longrightarrow>
                dir \<noteq> [] \<and> \<not> below dir (tempOriginalFilePath tp) \<and>
                (\<forall>q\<in>set (fs s). \<not> below dir q)"
  shows "fs (snd (newJob w s)) = fs s"
proof -
  let ?s0 = "registered w header s"
  obtain r s2 where b: "job_registered w header (jobIdCounter s + 1) ?s0 = (r, s2)"
    by (cases "job_registered w header (jobIdCounter s + 1) ?s0")
  obtain c s1 where n: "NewTaskProcessorFromMultipart w header ?s0 = (c, s1)"
    by (cases "NewTaskProcessorFromMultipart w header ?s0")
  with assms(3) NewTaskProcessor_indep[of w header ?s0 sa] have c: "c = Inr tp" by simp
  with n b have j: "job_with_processor w header (jobIdCounter s + 1) tp s1 = (r, s2)"
    by (simp add: job_registered_def)
  from NewTaskProcessor_fs[OF n[unfolded c]]
  have f: "fs s1 = tempOriginalFilePath tp # fs s" and t: "tempWorkDir tp = []" by simp_all
  from dir f have fresh: "\<forall>dir. mkdirTempRes w = Some dir \<longrightarrow>
                dir \<noteq> [] \<and> \<not> below dir (tempOriginalFilePath tp) \<and>
                (\<forall>q\<in>set (fs s1). \<not> below dir q)" by simp
  from job_with_processor_fs[OF j ok tmp(1) t fresh] f tmp(2)
  have "fs s2 = fs s" by simp
  with newJob_observed(4)[OF assms(1,2) b] show ?thesis by simp
qed

text \<open>
  C8. The claim: every temporary resource of a session is removed on every way out,
  creation-time failures included. When the temporary file was created and copying the
  upload into it fails, \<open>NewTaskProcessorFromMultipart\<close> returns the error and nothing
  removes the file: no session exists whose \<open>Close\<close> could run, the job goes on as a
  passthrough and ends with the file in place and no \<^verbatim>\<open>os.Remove\<close> of it in the trace.
\<close>

theorem newJob_failed_copy_leaves_temp_file:
  "fs idle = [] \<and>
   fst (newJob (photo_world\<lparr>copyOk := False\<rparr>) idle) = Ret () \<and>
   fs (snd (newJob (photo_world\<lparr>copyOk := False\<rparr>) idle)) = [''/tmp/upload-1.JPG''] \<and>
   filter (\<lambda>e. e = Remove ''/tmp/upload-1.JPG'')
     (trace (snd (newJob (photo_world\<lparr>copyOk := False\<rparr>) idle))) = []"
  by code_simp

end
